theory Spec2Isabelle
  imports
    Main
    "HOL-Library.Sublist"
    "HOL-Library.Char_ord"
    "HOL-Library.List_Lexorder"
    "HOL-Library.Multiset"
begin

section \<open>The file system the two scripts read\<close>

text \<open>
  Both scripts only read the file system: \<^verbatim>\<open>generate_structure.py\<close> lists directories
  (\<^verbatim>\<open>Path.iterdir\<close>) and asks whether an entry is a directory, \<^verbatim>\<open>watch_structure.py\<close>
  walks directories (\<^verbatim>\<open>os.walk\<close>) and reads modification times (\<^verbatim>\<open>os.path.getmtime\<close>).
  A snapshot of the file system is a finite tree. A regular file carries what
  \<^verbatim>\<open>getmtime\<close> gives for it (\<open>None\<close> when the call raises \<^verbatim>\<open>OSError\<close>); a directory is
  either listable, with its entries in the order the operating system hands them out,
  or its listing raises an error. Symbolic links are outside the model, so the tree has
  no cycles, and \<^verbatim>\<open>is_dir\<close> is a total test (it raises on no entry).
\<close>

datatype oserror = PermissionError | FileNotFoundError | NotADirectoryError | OtherOSError

datatype node =
    File "int option"
  | Dir "(string \<times> node) list"
  | Unlistable oserror

fun is_dir :: "node \<Rightarrow> bool" where
  "is_dir (File mtime) = False"
| "is_dir (Dir entries) = True"
| "is_dir (Unlistable e) = True"

text \<open>\<^verbatim>\<open>Path(p).iterdir()\<close>, consumed whole by \<^verbatim>\<open>sorted\<close>: the entries, or the error raised.\<close>

fun iterdir :: "node \<Rightarrow> oserror + (string \<times> node) list" where
  "iterdir (File mtime) = Inl NotADirectoryError"
| "iterdir (Dir entries) = Inr entries"
| "iterdir (Unlistable e) = Inl e"

section \<open>Strings and paths\<close>

text \<open>
  A \<^verbatim>\<open>pathlib\<close> path is the list of its parts; \<^verbatim>\<open>Path(".")\<close> has none and an absolute
  path has the part \<^verbatim>\<open>/\<close> first. \<open>path_str\<close> is \<^verbatim>\<open>str(path)\<close> on a POSIX system and
  \<open>root_path @ [name]\<close> is the entry \<^verbatim>\<open>root_path / name\<close> that \<^verbatim>\<open>iterdir\<close> yields.
\<close>

type_synonym path = "string list"

text \<open>\<^verbatim>\<open>sep.join(items)\<close>\<close>

fun join :: "string \<Rightarrow> string list \<Rightarrow> string" where
  "join sep [] = []"
| "join sep [x] = x"
| "join sep (x # y # ys) = x @ sep @ join sep (y # ys)"

fun path_str :: "path \<Rightarrow> string" where
  "path_str [] = ''.''"
| "path_str (p # ps) = (if p = ''/'' then ''/'' @ join ''/'' ps else join ''/'' (p # ps))"

text \<open>\<^verbatim>\<open>pattern in s\<close> on Python strings: \<open>pattern\<close> occurs in \<open>s\<close> as a contiguous run.\<close>

fun str_in :: "string \<Rightarrow> string \<Rightarrow> bool" where
  "str_in pattern [] = (pattern = [])"
| "str_in pattern (c # cs) = (prefix pattern (c # cs) \<or> str_in pattern cs)"

text \<open>
  \<^verbatim>\<open>s.strip()\<close>: leading and trailing whitespace removed. The characters below are the
  code points under 128 for which \<^verbatim>\<open>str.isspace\<close> holds.
\<close>

definition isspace :: "char \<Rightarrow> bool" where
  "isspace c = (c \<in> set [CHR 0x09, CHR 0x0A, CHR 0x0B, CHR 0x0C, CHR 0x0D,
                          CHR 0x1C, CHR 0x1D, CHR 0x1E, CHR 0x1F, CHR 0x20])"

definition strip :: "string \<Rightarrow> string" where
  "strip s = rev (dropWhile isspace (rev (dropWhile isspace s)))"

section \<open>generate\_structure.py\<close>

text \<open>
  \<^verbatim>\<open>
  def should_ignore(path, ignore_patterns):
      path_str = str(path)
      for pattern in ignore_patterns:
          if pattern in path_str:
              return True
      return False
  \<close>
\<close>

fun should_ignore :: "path \<Rightarrow> string list \<Rightarrow> bool" where
  "should_ignore path [] = False"
| "should_ignore path (pattern # ignore_patterns) =
     (if str_in pattern (path_str path) then True else should_ignore path ignore_patterns)"

text \<open>The three f-strings of \<^verbatim>\<open>generate_directory_structure\<close>; the quote is \<^verbatim>\<open>'\<close>.\<close>

definition folder_open :: "string \<Rightarrow> string \<Rightarrow> string" where
  "folder_open name sub_structure =
     ''<folder name='' @ [CHR 0x27] @ name @ [CHR 0x27] @ ''>'' @ ''\<newline>'' @ sub_structure @ ''</folder>''"

definition folder_empty :: "string \<Rightarrow> string" where
  "folder_empty name = ''<folder name='' @ [CHR 0x27] @ name @ [CHR 0x27] @ ''/>''"

definition file_tag :: "string \<Rightarrow> string" where
  "file_tag name = ''<file name='' @ [CHR 0x27] @ name @ [CHR 0x27] @ ''/>''"

text \<open>
  \<^verbatim>\<open>generate_directory_structure(root_path, ignore_patterns, max_depth, current_depth)\<close>,
  with the node found at \<open>root_path\<close> as first argument. The result is the returned text
  or the exception that leaves the function. \<open>loop_items\<close> is the \<^verbatim>\<open>for\<close> loop over the
  sorted listing: it returns the list \<^verbatim>\<open>items\<close> as it stands when the loop ends, and the
  exception that ended it, if one did. The \<^verbatim>\<open>try\<close> block encloses the listing and the
  loop, and its handler takes \<^verbatim>\<open>PermissionError\<close> only.

  \<^verbatim>\<open>sorted\<close> orders the entries of one directory by their last part; Python compares
  strings by code point, which is the byte order of their UTF-8 encoding.
\<close>

lemma size_list_sort_key: "size_list f (sort_key k xs) = size_list f xs"
proof -
  have "sum_list (map f (sort_key k xs)) = sum_mset (image_mset f (mset (sort_key k xs)))"
    by (simp add: sum_mset_sum_list[symmetric])
  also have "\<dots> = sum_list (map f xs)"
    by (simp add: sum_mset_sum_list[symmetric])
  finally show ?thesis
    by (simp add: size_list_conv_sum_list)
qed

function generate_directory_structure ::
    "node \<Rightarrow> path \<Rightarrow> string list \<Rightarrow> nat \<Rightarrow> nat \<Rightarrow> oserror + string"
  and loop_items ::
    "(string \<times> node) list \<Rightarrow> path \<Rightarrow> string list \<Rightarrow> nat \<Rightarrow> nat \<Rightarrow> string list
       \<Rightarrow> string list \<times> oserror option"
where
  "generate_directory_structure fs root_path ignore_patterns max_depth current_depth =
     (if current_depth \<ge> max_depth then Inr []
      else
        (case (case iterdir fs of
                 Inl e \<Rightarrow> ([], Some e)
               | Inr entries \<Rightarrow>
                   loop_items (sort_key fst entries) root_path ignore_patterns
                     max_depth current_depth []) of
           (items, None) \<Rightarrow> Inr (join ''\<newline>'' items)
         | (items, Some e) \<Rightarrow>
             (if e = PermissionError then Inr (join ''\<newline>'' items) else Inl e)))"
| "loop_items [] root_path ignore_patterns max_depth current_depth items = (items, None)"
| "loop_items ((name, item) # rest) root_path ignore_patterns max_depth current_depth items =
     (if should_ignore (root_path @ [name]) ignore_patterns
      then loop_items rest root_path ignore_patterns max_depth current_depth items
      else if is_dir item then
        (case generate_directory_structure item (root_path @ [name]) ignore_patterns
                max_depth (current_depth + 1) of
           Inl e \<Rightarrow> (items, Some e)
         | Inr sub_structure \<Rightarrow>
             (if strip sub_structure \<noteq> []
              then loop_items rest root_path ignore_patterns max_depth current_depth
                     (items @ [folder_open name sub_structure])
              else loop_items rest root_path ignore_patterns max_depth current_depth
                     (items @ [folder_empty name])))
      else loop_items rest root_path ignore_patterns max_depth current_depth
             (items @ [file_tag name]))"
  by pat_completeness auto
termination
proof (relation "measure (\<lambda>x. case x of
          Inl (fs, _) \<Rightarrow> size fs
        | Inr (entries, _) \<Rightarrow> size_list (size_prod (\<lambda>_. 0) size) entries)", goal_cases)
  case 1
  show ?case by simp
next
  case (2 fs root_path ignore_patterns max_depth current_depth entries)
  then show ?case by (cases fs) (simp_all add: size_list_sort_key)
qed simp_all

declare generate_directory_structure.simps [simp del]

text \<open>
  The configuration of \<^verbatim>\<open>main\<close>: the ignore list, the root \<^verbatim>\<open>"."\<close> and the default
  \<^verbatim>\<open>max_depth=10\<close>.
\<close>

definition ignore_patterns :: "string list" where
  "ignore_patterns =
     [''node_modules'', ''.git'', ''dist'', ''build'', ''.next'', ''coverage'',
      ''.nyc_output'', ''*.log'', ''.DS_Store'', ''Thumbs.db'', ''__pycache__'',
      ''.pytest_cache'', ''venv'', ''env'', ''.env'', ''generate_structure.py'',
      ''watch_structure.py'', ''start-structure-watcher.bat'']"

text \<open>
  \<^verbatim>\<open>s.split(sep)\<close> for a separator that is not empty (the only call passes
  \<^verbatim>\<open><file\<close>): the text is cut at each occurrence of \<open>sep\<close>, found from left to right
  without overlap. \<open>piece\<close> is the part read since the last cut.
\<close>

function split_from :: "string \<Rightarrow> string \<Rightarrow> string \<Rightarrow> string list" where
  "split_from sep piece [] = [piece]"
| "split_from sep piece (c # cs) =
     (if sep \<noteq> [] \<and> prefix sep (c # cs)
      then piece # split_from sep [] (drop (length sep) (c # cs))
      else split_from sep (piece @ [c]) cs)"
  by pat_completeness auto
termination
  by (relation "measure (\<lambda>(sep, piece, s). length s)") auto

definition split :: "string \<Rightarrow> string \<Rightarrow> string list" where
  "split sep s = split_from sep [] s"

text \<open>
  \<^verbatim>\<open>main\<close>, run in the directory \<open>cwd\<close>: the rendered tree, which is written to the output
  file between two constant pieces of text, and the number printed in the summary line
  \<^verbatim>\<open>Found {len(structure.split('<file'))} files and folders\<close>. An exception of the
  generator leaves \<^verbatim>\<open>main\<close> before anything is written or printed.
\<close>

definition main :: "node \<Rightarrow> oserror + (string \<times> nat)" where
  "main cwd =
     (case generate_directory_structure cwd [] ignore_patterns 10 0 of
        Inl e \<Rightarrow> Inl e
      | Inr structure \<Rightarrow> Inr (structure, length (split ''<file'' structure)))"

section \<open>watch\_structure.py\<close>

type_synonym table = "string \<rightharpoonup> int"

definition watch_dirs :: "string list" where
  "watch_dirs = [''src'', ''api'', ''config'', ''docs'', ''public'']"

definition skip_dirs :: "string list" where
  "skip_dirs = [''node_modules'', ''.git'', ''dist'', ''build'']"

text \<open>\<^verbatim>\<open>os.path.join(a, b)\<close> of \<^verbatim>\<open>posixpath\<close>.\<close>

definition os_path_join :: "string \<Rightarrow> string \<Rightarrow> string" where
  "os_path_join a b =
     (if prefix ''/'' b then b
      else if a = [] \<or> suffix ''/'' a then a @ b
      else a @ ''/'' @ b)"

text \<open>
  \<^verbatim>\<open>os.walk(top_dir)\<close> as the watcher drives it: top-down, and before the walk descends the
  caller replaces \<^verbatim>\<open>dirs\<close> by the names for which \<open>keep\<close> holds. Each element is
  \<^verbatim>\<open>(root, dirs, files)\<close>, the files with what \<^verbatim>\<open>getmtime\<close> gives for them. A directory that
  cannot be listed yields nothing: \<^verbatim>\<open>os.walk\<close> drops the error of \<^verbatim>\<open>scandir\<close>.
\<close>

fun os_walk ::
    "(string \<Rightarrow> bool) \<Rightarrow> string \<Rightarrow> node \<Rightarrow> (string \<times> string list \<times> (string \<times> int option) list) list"
where
  "os_walk keep top_dir (Dir entries) =
     (top_dir,
      [d. (d, sub) \<leftarrow> entries, is_dir sub, keep d],
      [(file, mtime). (file, File mtime) \<leftarrow> entries])
     # concat (map (\<lambda>(d, sub). if is_dir sub \<and> keep d
                                  then os_walk keep (os_path_join top_dir d) sub else [])
                entries)"
| "os_walk keep top_dir (File mtime) = []"
| "os_walk keep top_dir (Unlistable e) = []"

text \<open>
  The body of \<^verbatim>\<open>for file in files\<close>, on the pair of \<^verbatim>\<open>last_modified\<close> and \<^verbatim>\<open>changed\<close>:
  \<^verbatim>\<open>
  try:
      current_modified = os.path.getmtime(file_path)
      if file_path not in last_modified or last_modified[file_path] != current_modified:
          last_modified[file_path] = current_modified
          changed = True
  except (OSError, IOError):
      pass
  \<close>
\<close>

fun check_file :: "string \<Rightarrow> int option \<Rightarrow> table \<times> bool \<Rightarrow> table \<times> bool" where
  "check_file file_path None (last_modified, changed) = (last_modified, changed)"
| "check_file file_path (Some current_modified) (last_modified, changed) =
     (if last_modified file_path = None \<or> last_modified file_path \<noteq> Some current_modified
      then (last_modified(file_path \<mapsto> current_modified), True)
      else (last_modified, changed))"

text \<open>
  One pass of the \<^verbatim>\<open>while True\<close> body up to \<^verbatim>\<open>if changed\<close>, in a working directory with
  the entries \<open>cwd\<close>: \<^verbatim>\<open>os.path.exists(watch_dir)\<close> is a lookup among them.
\<close>

definition scan_watch_dir :: "(string \<times> node) list \<Rightarrow> string \<Rightarrow> table \<times> bool \<Rightarrow> table \<times> bool" where
  "scan_watch_dir cwd watch_dir st =
     (case map_of cwd watch_dir of
        None \<Rightarrow> st
      | Some fs \<Rightarrow>
          fold (\<lambda>(root, dirs, files) st'.
                  fold (\<lambda>(file, mtime). check_file (os_path_join root file) mtime) files st')
            (os_walk (\<lambda>d. d \<notin> set skip_dirs) watch_dir fs) st)"

definition poll :: "(string \<times> node) list \<Rightarrow> table \<Rightarrow> table \<times> bool" where
  "poll cwd last_modified = fold (scan_watch_dir cwd) watch_dirs (last_modified, False)"

text \<open>
  One iteration: the table after the pass, and how many times \<^verbatim>\<open>subprocess.run\<close> was
  called (the call sits under \<^verbatim>\<open>if changed\<close>, and whatever it returns or raises is only
  printed).
\<close>

definition iteration :: "(string \<times> node) list \<Rightarrow> table \<Rightarrow> table \<times> nat" where
  "iteration cwd last_modified =
     (case poll cwd last_modified of
        (last_modified', changed) \<Rightarrow> (last_modified', if changed then 1 else 0))"

text \<open>
  \<^verbatim>\<open>watch_and_regenerate\<close> until the interrupt: the loop has no exit of its own, so a run
  is given by the snapshots of the working directory that its iterations met, one each.
  The result is the table when the interrupt arrives and the number of generator calls
  of each iteration. The table starts as \<^verbatim>\<open>{}\<close>.
\<close>

fun watch_loop :: "(string \<times> node) list list \<Rightarrow> table \<Rightarrow> table \<times> nat list" where
  "watch_loop [] last_modified = (last_modified, [])"
| "watch_loop (cwd # later) last_modified =
     (case iteration cwd last_modified of
        (last_modified', calls) \<Rightarrow>
          (case watch_loop later last_modified' of
             (final, more) \<Rightarrow> (final, calls # more)))"

definition watch_and_regenerate :: "(string \<times> node) list list \<Rightarrow> table \<times> nat list" where
  "watch_and_regenerate snapshots = watch_loop snapshots Map.empty"


section \<open>Notions the properties are stated with\<close>

subsection \<open>For the generator\<close>

text \<open>
  A path matches a pattern list when its string contains one of the patterns as a
  contiguous run of characters (\<open>sublist\<close> of the library); \<open>should_ignore\<close> computes it.
\<close>

definition matches :: "string list \<Rightarrow> path \<Rightarrow> bool" where
  "matches patterns p = (\<exists>pattern\<in>set patterns. sublist pattern (path_str p))"

text \<open>
  The tree found at \<open>root_path\<close> without the entries whose path matches, at every level;
  what lies below a removed entry goes with it.
\<close>

fun prune :: "path \<Rightarrow> string list \<Rightarrow> node \<Rightarrow> node" where
  "prune root_path patterns (Dir entries) =
     Dir (map (\<lambda>(name, item). (name, prune (root_path @ [name]) patterns item))
            (filter (\<lambda>(name, item). \<not> matches patterns (root_path @ [name])) entries))"
| "prune root_path patterns (File mtime) = File mtime"
| "prune root_path patterns (Unlistable e) = Unlistable e"

text \<open>
  The tree cut \<open>d\<close> levels down: every directory at that depth is left without entries
  (at \<open>d = 0\<close> that is the node itself).
\<close>

fun trunc :: "nat \<Rightarrow> node \<Rightarrow> node" where
  "trunc 0 fs = Dir []"
| "trunc (Suc d) (Dir entries) =
     Dir (map (\<lambda>(name, item). (name, if is_dir item then trunc d item else item)) entries)"
| "trunc (Suc d) (File mtime) = File mtime"
| "trunc (Suc d) (Unlistable e) = Unlistable e"

text \<open>
  The tree with an empty directory in the place of every directory whose listing raises
  \<^verbatim>\<open>PermissionError\<close>.
\<close>

fun grant :: "node \<Rightarrow> node" where
  "grant (Dir entries) = Dir (map (\<lambda>(name, item). (name, grant item)) entries)"
| "grant (File mtime) = File mtime"
| "grant (Unlistable e) = (if e = PermissionError then Dir [] else Unlistable e)"

text \<open>
  The tree with every listing sorted by name. Two snapshots with the same canonical form
  hold the same files and directories and differ at most in the order of the listings.
\<close>

fun canon :: "node \<Rightarrow> node" where
  "canon (Dir entries) = Dir (sort_key fst (map (\<lambda>(name, item). (name, canon item)) entries))"
| "canon (File mtime) = File mtime"
| "canon (Unlistable e) = Unlistable e"

text \<open>
  What one entry of a directory contributes to the items of that directory: its tag, or
  the exception of the recursive call. \<open>collect\<close> gathers such results up to the first
  exception.
\<close>

definition entry_tag ::
    "path \<Rightarrow> string list \<Rightarrow> nat \<Rightarrow> nat \<Rightarrow> string \<times> node \<Rightarrow> oserror + string" where
  "entry_tag root_path patterns max_depth current_depth entry =
     (case entry of (name, item) \<Rightarrow>
        if is_dir item then
          (case generate_directory_structure item (root_path @ [name]) patterns
                  max_depth (current_depth + 1) of
             Inl e \<Rightarrow> Inl e
           | Inr sub_structure \<Rightarrow>
               Inr (if sub_structure = [] then folder_empty name
                    else folder_open name sub_structure))
        else Inr (file_tag name))"

fun collect :: "(oserror + string) list \<Rightarrow> string list \<times> oserror option" where
  "collect [] = ([], None)"
| "collect (Inl e # rs) = ([], Some e)"
| "collect (Inr t # rs) = (case collect rs of (ts, r) \<Rightarrow> (t # ts, r))"

text \<open>The number of positions of \<open>s\<close> at which \<open>token\<close> starts.\<close>

fun count_tokens :: "string \<Rightarrow> string \<Rightarrow> nat" where
  "count_tokens token [] = 0"
| "count_tokens token (c # cs) = (if prefix token (c # cs) then 1 else 0) + count_tokens token cs"

text \<open>Every item of the loop holds the character \<^verbatim>\<open><\<close>, which is no whitespace.\<close>

definition is_tag :: "string \<Rightarrow> bool" where
  "is_tag s = (CHR ''<'' \<in> set s)"

subsection \<open>For the watcher\<close>

text \<open>
  The files a pass meets below one watch directory and in the whole working directory,
  in the order of the walk: the path handed to \<^verbatim>\<open>getmtime\<close> and the time it returned.
  A file for which \<^verbatim>\<open>getmtime\<close> raises, and a file below a directory the walk does not
  enter, is not among them.
\<close>

definition seen_under :: "string \<Rightarrow> node \<Rightarrow> (string \<times> int) list" where
  "seen_under watch_dir fs =
     [(os_path_join root file, m).
        (root, dirs, files) \<leftarrow> os_walk (\<lambda>d. d \<notin> set skip_dirs) watch_dir fs,
        (file, Some m) \<leftarrow> files]"

definition seen :: "(string \<times> node) list \<Rightarrow> (string \<times> int) list" where
  "seen cwd =
     concat (map (\<lambda>watch_dir. case map_of cwd watch_dir of
                                  None \<Rightarrow> []
                                | Some fs \<Rightarrow> seen_under watch_dir fs) watch_dirs)"



text \<open>The node reached from \<open>fs\<close> by following the names of a relative path.\<close>

fun descend :: "node \<Rightarrow> string list \<Rightarrow> node option" where
  "descend fs [] = Some fs"
| "descend (Dir entries) (name # names) =
     (case map_of entries name of None \<Rightarrow> None | Some sub \<Rightarrow> descend sub names)"
| "descend (File mtime) (name # names) = None"
| "descend (Unlistable e) (name # names) = None"

text \<open>The tree without the directories whose name is one of \<open>skip_dirs\<close>, at every level.\<close>

fun drop_skipped :: "node \<Rightarrow> node" where
  "drop_skipped (Dir entries) =
     Dir (map (\<lambda>(name, item). (name, drop_skipped item))
            (filter (\<lambda>(name, item). \<not> (is_dir item \<and> name \<in> set skip_dirs)) entries))"
| "drop_skipped (File mtime) = File mtime"
| "drop_skipped (Unlistable e) = Unlistable e"

text \<open>The loop body on a file whose time could be read.\<close>

abbreviation record_file :: "string \<times> int \<Rightarrow> table \<times> bool \<Rightarrow> table \<times> bool" where
  "record_file \<equiv> \<lambda>(file_path, m). check_file file_path (Some m)"



definition first_part :: "string \<Rightarrow> string" where
  "first_part s = takeWhile (\<lambda>c. c \<noteq> CHR ''/'') s"

definition files_part :: "string \<Rightarrow> (string \<times> node) list \<Rightarrow> (string \<times> int) list" where
  "files_part root entries =
     concat (map (\<lambda>(name, item). case item of File (Some m) \<Rightarrow> [(os_path_join root name, m)] | _ \<Rightarrow> [])
       entries)"




section \<open>Lemmas about the generator\<close>

text \<open>\<^verbatim>\<open>strip\<close> leaves nothing exactly of a text made of whitespace only; a rendering that is
  not empty holds a tag, so the test \<^verbatim>\<open>if sub_structure.strip()\<close> asks whether it is empty.\<close>

lemma strip_Nil_iff: "strip s = [] \<longleftrightarrow> (\<forall>c\<in>set s. isspace c)"
proof -
  have "strip s = [] \<longleftrightarrow> dropWhile isspace (rev (dropWhile isspace s)) = []"
    by (simp add: strip_def)
  also have "\<dots> \<longleftrightarrow> (\<forall>c\<in>set (dropWhile isspace s). isspace c)"
    by (simp add: dropWhile_eq_Nil_conv)
  also have "\<dots> \<longleftrightarrow> (\<forall>c\<in>set s. isspace c)"
  proof
    assume a: "\<forall>c\<in>set (dropWhile isspace s). isspace c"
    have "dropWhile isspace s = []"
    proof (rule ccontr)
      assume "dropWhile isspace s \<noteq> []"
      then have "\<not> isspace (hd (dropWhile isspace s))" by (rule hd_dropWhile)
      moreover from \<open>dropWhile isspace s \<noteq> []\<close> have "hd (dropWhile isspace s) \<in> set (dropWhile isspace s)"
        by simp
      ultimately show False using a by blast
    qed
    then show "\<forall>c\<in>set s. isspace c" by (simp add: dropWhile_eq_Nil_conv)
  next
    assume "\<forall>c\<in>set s. isspace c"
    then show "\<forall>c\<in>set (dropWhile isspace s). isspace c"
      using set_dropWhileD by fastforce
  qed
  finally show ?thesis .
qed

lemma set_join_hd: "items \<noteq> [] \<Longrightarrow> set (hd items) \<subseteq> set (join sep items)"
  by (induction sep items rule: join.induct) auto

lemma is_tag_simps [simp]:
  "is_tag (folder_open name sub)" "is_tag (folder_empty name)" "is_tag (file_tag name)"
  by (simp_all add: is_tag_def folder_open_def folder_empty_def file_tag_def)

lemma loop_items_tags:
  "\<forall>x\<in>set items. is_tag x \<Longrightarrow>
   \<forall>x\<in>set (fst (loop_items entries root_path patterns max_depth current_depth items)). is_tag x"
proof (induction entries arbitrary: items)
  case Nil
  then show ?case by simp
next
  case (Cons entry rest)
  obtain name item where entry: "entry = (name, item)" by (cases entry)
  have more: "\<forall>x\<in>set (fst (loop_items rest root_path patterns max_depth current_depth (items @ [t]))). is_tag x"
    if "is_tag t" for t
    using Cons.prems that by (intro Cons.IH) simp
  note m = more[of "file_tag name"] more[of "folder_empty name"] more[of "folder_open name sub" for sub]
  show ?case
    unfolding entry using Cons.IH[OF Cons.prems] Cons.prems m
    by (simp split: sum.splits)
qed

lemma not_isspace_lt: "\<not> isspace CHR ''<''"
  by (simp add: isspace_def)

lemma is_tag_strip: "is_tag s \<Longrightarrow> strip s \<noteq> []"
  using not_isspace_lt by (auto simp: strip_Nil_iff is_tag_def)

lemma generate_strip:
  assumes "generate_directory_structure fs root_path patterns max_depth current_depth = Inr sub"
  shows "strip sub \<noteq> [] \<longleftrightarrow> sub \<noteq> []"
proof
  show "strip sub \<noteq> [] \<Longrightarrow> sub \<noteq> []" by (auto simp: strip_def)
next
  assume ne: "sub \<noteq> []"
  from assms ne obtain items where sub: "sub = join ''\<newline>'' items" and tags: "\<forall>x\<in>set items. is_tag x"
  proof (cases "max_depth \<le> current_depth")
    case True
    with assms ne show ?thesis by (simp add: generate_directory_structure.simps)
  next
    case False
    show ?thesis
    proof (cases "iterdir fs")
      case (Inl e)
      with False assms ne show ?thesis
        by (simp add: generate_directory_structure.simps split: if_splits)
    next
      case (Inr entries)
      have "\<forall>x\<in>set (fst (loop_items (sort_key fst entries) root_path patterns max_depth current_depth [])). is_tag x"
        by (rule loop_items_tags) simp
      with False assms Inr that show ?thesis
        by (auto simp: generate_directory_structure.simps split: prod.splits option.splits if_splits)
    qed
  qed
  from ne sub have "items \<noteq> []" by auto
  with tags have "is_tag (hd items)" by simp
  with set_join_hd[OF \<open>items \<noteq> []\<close>, of "''\<newline>''"] sub have "is_tag sub"
    by (auto simp: is_tag_def)
  then show "strip sub \<noteq> []" by (rule is_tag_strip)
qed

text \<open>\<open>should_ignore\<close> decides \<open>matches\<close>.\<close>

lemma str_in_sublist: "str_in pattern s = sublist pattern s"
  by (induction s) (auto simp: sublist_Cons_right)

lemma should_ignore_matches: "should_ignore p patterns = matches patterns p"
  by (induction patterns) (auto simp: matches_def str_in_sublist)

lemma matches_Nil [simp]: "\<not> matches [] p"
  by (simp add: matches_def)

text \<open>Sorting by name commutes with a change of the nodes that keeps the names.\<close>

lemma insort_key_map_keep:
  assumes "\<And>x. k (g x) = k x"
  shows "insort_key k (g x) (map g xs) = map g (insort_key k x xs)"
  using assms by (induction xs) auto

lemma sort_key_map_keep:
  assumes "\<And>x. k (g x) = k x"
  shows "sort_key k (map g xs) = map g (sort_key k xs)"
  using assms by (induction xs) (auto simp: insort_key_map_keep)

text \<open>The cases of a call, by the depth and the kind of node.\<close>

lemma generate_at_limit:
  "max_depth \<le> current_depth \<Longrightarrow>
   generate_directory_structure fs root_path patterns max_depth current_depth = Inr []"
  by (simp add: generate_directory_structure.simps)

lemma generate_Dir:
  "current_depth < max_depth \<Longrightarrow>
   generate_directory_structure (Dir entries) root_path patterns max_depth current_depth =
     (case loop_items (sort_key fst entries) root_path patterns max_depth current_depth [] of
        (items, None) \<Rightarrow> Inr (join ''\<newline>'' items)
      | (items, Some e) \<Rightarrow> if e = PermissionError then Inr (join ''\<newline>'' items) else Inl e)"
  by (simp add: generate_directory_structure.simps)

lemma generate_File:
  "current_depth < max_depth \<Longrightarrow>
   generate_directory_structure (File mtime) root_path patterns max_depth current_depth =
     Inl NotADirectoryError"
  by (simp add: generate_directory_structure.simps)

lemma generate_Unlistable:
  "current_depth < max_depth \<Longrightarrow>
   generate_directory_structure (Unlistable e) root_path patterns max_depth current_depth =
     (if e = PermissionError then Inr [] else Inl e)"
  by (simp add: generate_directory_structure.simps)

lemma is_dir_prune [simp]: "is_dir (prune root_path patterns item) = is_dir item"
  by (cases item) simp_all

text \<open>The output does not change when the ignored entries are removed from the tree.\<close>

lemma prune_invariant:
  "generate_directory_structure fs root_path patterns max_depth current_depth =
     generate_directory_structure (prune root_path patterns fs) root_path [] max_depth current_depth"
  "loop_items entries root_path patterns max_depth current_depth items =
     loop_items (map (\<lambda>(name, item). (name, prune (root_path @ [name]) patterns item))
            (filter (\<lambda>(name, item). \<not> matches patterns (root_path @ [name])) entries))
        root_path [] max_depth current_depth items"
proof (induction fs root_path patterns max_depth current_depth
        and entries root_path patterns max_depth current_depth items
        rule: generate_directory_structure_loop_items.induct)
  case (1 fs root_path patterns max_depth current_depth)
  show ?case
  proof (cases "max_depth \<le> current_depth")
    case True
    then show ?thesis by (simp add: generate_at_limit)
  next
    case False
    then have lt: "current_depth < max_depth" by simp
    show ?thesis
    proof (cases fs)
      case (Dir entries)
      have comm: "sort_key fst (map (\<lambda>(name, item). (name, prune (root_path @ [name]) patterns item))
              (filter (\<lambda>(name, item). \<not> matches patterns (root_path @ [name])) entries))
          = map (\<lambda>(name, item). (name, prune (root_path @ [name]) patterns item))
              (filter (\<lambda>(name, item). \<not> matches patterns (root_path @ [name])) (sort_key fst entries))"
        by (simp add: sort_key_map_keep filter_sort case_prod_unfold)
      from 1[of entries] Dir False comm lt show ?thesis
        by (simp add: generate_Dir)
    qed (simp_all add: generate_File generate_Unlistable lt)
  qed
next
  case (2 root_path patterns max_depth current_depth items)
  then show ?case by simp
next
  case (3 name item rest root_path patterns max_depth current_depth items)
  show ?case
  proof (cases "should_ignore (root_path @ [name]) patterns")
    case True
    with 3(1) show ?thesis by (simp add: should_ignore_matches)
  next
    case ni: False
    then have nm: "\<not> matches patterns (root_path @ [name])" by (simp add: should_ignore_matches)
    show ?thesis
    proof (cases "is_dir item")
      case True
      show ?thesis
      proof (cases "generate_directory_structure item (root_path @ [name]) patterns max_depth (current_depth + 1)")
        case (Inl e)
        with ni nm True 3(2) show ?thesis by simp
      next
        case (Inr sub)
        with ni nm True 3(2) 3(3)[of sub] 3(4)[of sub] show ?thesis
          by simp
      qed
    next
      case False
      with ni nm 3(5) show ?thesis by simp
    qed
  qed
qed

text \<open>The loop appends the tags of the entries that are not ignored, up to the first exception.\<close>

lemma loop_items_collect:
  "loop_items entries root_path patterns max_depth current_depth items =
     (case collect (map (entry_tag root_path patterns max_depth current_depth)
                      (filter (\<lambda>(name, item). \<not> should_ignore (root_path @ [name]) patterns) entries)) of
        (ts, r) \<Rightarrow> (items @ ts, r))"
proof (induction entries arbitrary: items)
  case Nil
  show ?case by simp
next
  case (Cons entry rest)
  obtain name item where entry: "entry = (name, item)" by (cases entry)
  show ?case
  proof (cases "should_ignore (root_path @ [name]) patterns")
    case True
    then show ?thesis unfolding entry using Cons.IH[of items] by simp
  next
    case ni: False
    show ?thesis
    proof (cases "is_dir item")
      case False
      with ni show ?thesis unfolding entry
        using Cons.IH[of "items @ [file_tag name]"]
        by (simp add: entry_tag_def split: prod.splits)
    next
      case True
      show ?thesis
      proof (cases "generate_directory_structure item (root_path @ [name]) patterns max_depth (current_depth + 1)")
        case (Inl e)
        with ni True show ?thesis unfolding entry by (simp add: entry_tag_def)
      next
        case (Inr sub)
        from generate_strip[OF Inr] have st: "strip sub \<noteq> [] \<longleftrightarrow> sub \<noteq> []" .
        show ?thesis
        proof (cases "sub = []")
          case True
          with st have "strip sub = []" by simp
          with ni \<open>is_dir item\<close> Inr True show ?thesis unfolding entry
            using Cons.IH[of "items @ [folder_empty name]"]
            by (simp add: entry_tag_def split: prod.splits)
        next
          case False
          with st have "strip sub \<noteq> []" by simp
          with ni \<open>is_dir item\<close> Inr False show ?thesis unfolding entry
            using Cons.IH[of "items @ [folder_open name sub]"]
            by (simp add: entry_tag_def split: prod.splits)
        qed
      qed
    qed
  qed
qed

text \<open>No call ends with \<^verbatim>\<open>PermissionError\<close>: each call handles its own.\<close>

lemma generate_no_PermissionError:
  "generate_directory_structure fs root_path patterns max_depth current_depth \<noteq> Inl PermissionError"
  and loop_items_no_PermissionError:
  "snd (loop_items entries root_path patterns max_depth current_depth items) \<noteq> Some PermissionError"
proof (induction fs root_path patterns max_depth current_depth
        and entries root_path patterns max_depth current_depth items
        rule: generate_directory_structure_loop_items.induct)
  case (1 fs root_path patterns max_depth current_depth)
  show ?case
    by (simp add: generate_directory_structure.simps split: sum.splits prod.splits option.splits)
next
  case (2 root_path patterns max_depth current_depth items)
  show ?case by simp
next
  case (3 name item rest root_path patterns max_depth current_depth items)
  then show ?case
    by (auto split: sum.splits)
qed

lemma is_dir_trunc [simp]: "is_dir item \<Longrightarrow> is_dir (trunc d item)"
  by (cases d; cases item) simp_all

lemma is_dir_grant [simp]: "is_dir (grant item) = is_dir item"
  by (cases item) simp_all

lemma is_dir_canon [simp]: "is_dir (canon item) = is_dir item"
  by (cases item) simp_all

lemma generate_Dir_Nil [simp]:
  "generate_directory_structure (Dir []) root_path patterns max_depth current_depth = Inr []"
  by (simp add: generate_directory_structure.simps)

text \<open>The output does not change when the tree is cut at the depth limit, when the directories
  that cannot be read are emptied, or when the listings are sorted.\<close>

lemma trunc_invariant:
  "generate_directory_structure fs root_path patterns max_depth current_depth =
     generate_directory_structure (trunc (max_depth - current_depth) fs) root_path patterns
       (max_depth + j) current_depth"
  "current_depth < max_depth \<longrightarrow>
   loop_items entries root_path patterns max_depth current_depth items =
     loop_items
       (map (\<lambda>(name, item).
               (name, if is_dir item then trunc (max_depth - current_depth - 1) item else item))
          entries)
       root_path patterns (max_depth + j) current_depth items"
proof (induction fs root_path patterns max_depth current_depth
        and entries root_path patterns max_depth current_depth items
        rule: generate_directory_structure_loop_items.induct)
  case (1 fs root_path patterns max_depth current_depth)
  show ?case
  proof (cases "max_depth \<le> current_depth")
    case True
    then show ?thesis by (simp add: generate_at_limit)
  next
    case False
    then have lt: "current_depth < max_depth" and lt': "current_depth < max_depth + j" by simp_all
    from lt obtain d where d: "max_depth - current_depth = Suc d" "max_depth - current_depth - 1 = d"
      by (cases "max_depth - current_depth") simp_all
    show ?thesis
    proof (cases fs)
      case (Dir entries)
      have comm: "sort_key fst (map (\<lambda>(name, item). (name, if is_dir item then trunc d item else item)) entries)
          = map (\<lambda>(name, item). (name, if is_dir item then trunc d item else item)) (sort_key fst entries)"
        by (simp add: sort_key_map_keep case_prod_unfold)
      from 1[of entries] Dir False lt
      have IH: "loop_items (sort_key fst entries) root_path patterns max_depth current_depth [] =
          loop_items (map (\<lambda>(name, item). (name, if is_dir item then trunc d item else item))
            (sort_key fst entries)) root_path patterns (max_depth + j) current_depth []"
        unfolding d(2) by simp
      have "generate_directory_structure (trunc (max_depth - current_depth) fs) root_path patterns
              (max_depth + j) current_depth =
            generate_directory_structure
              (Dir (map (\<lambda>(name, item). (name, if is_dir item then trunc d item else item)) entries))
              root_path patterns (max_depth + j) current_depth"
        unfolding d(1) Dir by simp
      then show ?thesis
        unfolding Dir generate_Dir[OF lt] generate_Dir[OF lt'] comm IH by simp
    qed (simp_all add: generate_File generate_Unlistable lt lt' d)
  qed
next
  case (2 root_path patterns max_depth current_depth items)
  then show ?case by simp
next
  case (3 name item rest root_path patterns max_depth current_depth items)
  show ?case
  proof
    assume lt: "current_depth < max_depth"
    then have eq: "max_depth - (current_depth + 1) = max_depth - current_depth - 1" by simp
    show "loop_items ((name, item) # rest) root_path patterns max_depth current_depth items =
       loop_items (map (\<lambda>(name, item).
               (name, if is_dir item then trunc (max_depth - current_depth - 1) item else item))
          ((name, item) # rest)) root_path patterns (max_depth + j) current_depth items"
    proof (cases "should_ignore (root_path @ [name]) patterns")
      case True
      with 3(1) lt show ?thesis by simp
    next
      case ni: False
      show ?thesis
      proof (cases "is_dir item")
        case True
        show ?thesis
        proof (cases "generate_directory_structure item (root_path @ [name]) patterns max_depth (current_depth + 1)")
          case (Inl e)
          with ni True 3(2) lt eq show ?thesis by simp
        next
          case (Inr sub)
          with ni True 3(2) 3(3)[of sub] 3(4)[of sub] lt eq show ?thesis
            by simp
        qed
      next
        case False
        with ni 3(5) lt show ?thesis by simp
      qed
    qed
  qed
qed

lemma grant_invariant:
  "generate_directory_structure fs root_path patterns max_depth current_depth =
     generate_directory_structure (grant fs) root_path patterns max_depth current_depth"
  "loop_items entries root_path patterns max_depth current_depth items =
     loop_items (map (\<lambda>(name, item). (name, grant item)) entries)
       root_path patterns max_depth current_depth items"
proof (induction fs root_path patterns max_depth current_depth
        and entries root_path patterns max_depth current_depth items
        rule: generate_directory_structure_loop_items.induct)
  case (1 fs root_path patterns max_depth current_depth)
  show ?case
  proof (cases "max_depth \<le> current_depth")
    case True
    then show ?thesis by (simp add: generate_at_limit)
  next
    case False
    then have lt: "current_depth < max_depth" by simp
    show ?thesis
    proof (cases fs)
      case (Dir entries)
      have comm: "sort_key fst (map (\<lambda>(name, item). (name, grant item)) entries)
          = map (\<lambda>(name, item). (name, grant item)) (sort_key fst entries)"
        by (simp add: sort_key_map_keep case_prod_unfold)
      from 1[of entries] Dir False comm lt show ?thesis
        by (simp add: generate_Dir)
    qed (simp_all add: generate_File generate_Unlistable lt)
  qed
next
  case (2 root_path patterns max_depth current_depth items)
  then show ?case by simp
next
  case (3 name item rest root_path patterns max_depth current_depth items)
  show ?case
  proof (cases "should_ignore (root_path @ [name]) patterns")
    case True
    with 3(1) show ?thesis by simp
  next
    case ni: False
    show ?thesis
    proof (cases "is_dir item")
      case True
      show ?thesis
      proof (cases "generate_directory_structure item (root_path @ [name]) patterns max_depth (current_depth + 1)")
        case (Inl e)
        with ni True 3(2) show ?thesis by simp
      next
        case (Inr sub)
        with ni True 3(2) 3(3)[of sub] 3(4)[of sub] show ?thesis
          by simp
      qed
    next
      case False
      with ni 3(5) show ?thesis by simp
    qed
  qed
qed



lemmas eval_simps =
  generate_directory_structure.simps folder_open_def folder_empty_def file_tag_def
  strip_def isspace_def

lemma loop_items_all_ignored:
  "\<forall>(name, item)\<in>set entries. should_ignore (root_path @ [name]) patterns \<Longrightarrow>
   loop_items entries root_path patterns max_depth current_depth items = (items, None)"
  by (induction entries) auto

lemma collect_error:
  "Inl e \<in> set rs \<Longrightarrow> \<exists>e'. snd (collect rs) = Some e'"
proof (induction rs)
  case Nil
  then show ?case by simp
next
  case (Cons r rs)
  then show ?case by (cases r) (auto split: prod.splits)
qed

lemma generate_Dir_collect:
  assumes "current_depth < max_depth"
  shows "generate_directory_structure (Dir entries) root_path patterns max_depth current_depth =
     (case collect (map (entry_tag root_path patterns max_depth current_depth)
                      (filter (\<lambda>(name, item). \<not> should_ignore (root_path @ [name]) patterns)
                         (sort_key fst entries))) of
        (ts, None) \<Rightarrow> Inr (join ''\<newline>'' ts)
      | (ts, Some e) \<Rightarrow> Inl e)"
proof -
  let ?rs = "map (entry_tag root_path patterns max_depth current_depth)
                      (filter (\<lambda>(name, item). \<not> should_ignore (root_path @ [name]) patterns)
                         (sort_key fst entries))"
  obtain ts r where c: "collect ?rs = (ts, r)" by (cases "collect ?rs")
  have l: "loop_items (sort_key fst entries) root_path patterns max_depth current_depth [] = (ts, r)"
    by (simp add: loop_items_collect[of "sort_key fst entries"] c)
  from loop_items_no_PermissionError[of "sort_key fst entries" root_path patterns max_depth current_depth "[]"] l
  have "r \<noteq> Some PermissionError" by simp
  with l c show ?thesis
    by (simp add: generate_Dir[OF assms] split: option.splits)
qed

text \<open>\<^verbatim>\<open>split\<close> yields one piece more than there are tokens (no two occurrences of \<^verbatim>\<open><file\<close> overlap).\<close>

lemma split_from_length:
  "length (split_from ''<file'' piece s) = Suc (count_tokens ''<file'' s)"
proof (induction "''<file''" piece s rule: split_from.induct)
  case (1 piece)
  show ?case by simp
next
  case (2 piece c cs)
  show ?case
  proof (cases "prefix ''<file'' (c # cs)")
    case True
    then obtain r where r: "c # cs = ''<file'' @ r" by (auto simp: prefix_def)
    then have cs: "cs = ''file'' @ r" and c: "c = CHR ''<''" by simp_all
    have "count_tokens ''<file'' cs = count_tokens ''<file'' r"
      unfolding cs by simp
    with 2(1) True r show ?thesis by simp
  next
    case False
    with 2(2) show ?thesis by auto
  qed
qed


text \<open>At the last level before the limit every directory is a self-closing tag.\<close>

lemma collect_Inr: "collect (map Inr ts) = (ts, None)"
  by (induction ts) simp_all

lemma entry_tag_last_level:
  "entry_tag root_path patterns (Suc current_depth) current_depth (name, item) =
     Inr (if is_dir item then ''<folder name='' @ [CHR 0x27] @ name @ [CHR 0x27] @ ''/>''
          else ''<file name='' @ [CHR 0x27] @ name @ [CHR 0x27] @ ''/>'')"
  by (simp add: entry_tag_def generate_at_limit folder_empty_def file_tag_def)

lemma generate_last_level:
  "generate_directory_structure (Dir entries) root_path patterns (Suc current_depth) current_depth =
     Inr (join ''\<newline>''
            (map (\<lambda>(name, item).
                    if is_dir item then ''<folder name='' @ [CHR 0x27] @ name @ [CHR 0x27] @ ''/>''
                    else ''<file name='' @ [CHR 0x27] @ name @ [CHR 0x27] @ ''/>'')
               (filter (\<lambda>(name, item). \<not> should_ignore (root_path @ [name]) patterns)
                  (sort_key fst entries))))"
proof -
  let ?t = "\<lambda>(name, item).
                    if is_dir item then ''<folder name='' @ [CHR 0x27] @ name @ [CHR 0x27] @ ''/>''
                    else ''<file name='' @ [CHR 0x27] @ name @ [CHR 0x27] @ ''/>''"
  have eq: "map (entry_tag root_path patterns (Suc current_depth) current_depth) xs =
        map Inr (map ?t xs)" for xs
  proof (induction xs)
    case Nil
    show ?case by simp
  next
    case (Cons x xs)
    obtain name item where x: "x = (name, item)" by (cases x)
    show ?case unfolding x using Cons.IH by (simp add: entry_tag_last_level)
  qed
  have lt: "current_depth < Suc current_depth" by simp
  show ?thesis
    unfolding generate_Dir_collect[OF lt] eq collect_Inr by simp
qed


section \<open>Properties of the generator\<close>

text \<open>
  The scenario of the specification: a root with \<^verbatim>\<open>src/a.ts\<close>, \<^verbatim>\<open>src/b.ts\<close>,
  \<^verbatim>\<open>node_modules/x.js\<close> and an empty folder \<^verbatim>\<open>docs\<close>.
\<close>

lemma scenario_rendering:
  "generate_directory_structure
       (Dir [(''src'', Dir [(''b.ts'', File None), (''a.ts'', File None)]),
             (''node_modules'', Dir [(''x.js'', File None)]),
             (''docs'', Dir [])]) [] [''node_modules''] 10 0 =
   Inr (''<folder name='' @ [CHR 0x27] @ ''docs'' @ [CHR 0x27] @ ''/>\<newline>'' @
        ''<folder name='' @ [CHR 0x27] @ ''src'' @ [CHR 0x27] @ ''>\<newline>'' @
        ''<file name='' @ [CHR 0x27] @ ''a.ts'' @ [CHR 0x27] @ ''/>\<newline>'' @
        ''<file name='' @ [CHR 0x27] @ ''b.ts'' @ [CHR 0x27] @ ''/></folder>'')"
  by (simp add: eval_simps)

subsection \<open>C1: ignored entries\<close>

text \<open>
  Claim C1. An entry whose path string contains an ignore pattern as a substring
  (\<open>matches\<close>) is skipped: the loop goes on with the next entry and the list of items as
  it was, whatever the entry is and whatever lies below it. So the output is the plain
  rendering, under an empty pattern list, of the tree from which every such entry has
  been removed with all its descendants (\<open>prune\<close>).
\<close>

theorem ignored_entries_absent:
  "(matches patterns (root_path @ [name]) \<longrightarrow>
      loop_items ((name, item) # rest) root_path patterns max_depth current_depth items =
        loop_items rest root_path patterns max_depth current_depth items) \<and>
   generate_directory_structure fs root_path patterns max_depth current_depth =
     generate_directory_structure (prune root_path patterns fs) root_path [] max_depth current_depth"
  using prune_invariant(1)[of fs root_path patterns max_depth current_depth]
  by (simp add: should_ignore_matches)

text \<open>The same at a concrete tree, the pattern \<^verbatim>\<open>node_modules\<close> and the root \<^verbatim>\<open>.\<close>\<close>

theorem ignored_entries_absent_witness:
  "matches [''node_modules''] ([] @ [''node_modules'']) \<and>
   loop_items ((''node_modules'', Dir [(''x.js'', File None)]) # [(''src'', Dir [])]) []
       [''node_modules''] 10 0 [] =
     loop_items [(''src'', Dir [])] [] [''node_modules''] 10 0 [] \<and>
   generate_directory_structure
       (Dir [(''src'', Dir [(''b.ts'', File None), (''a.ts'', File None)]),
             (''node_modules'', Dir [(''x.js'', File None)]),
             (''docs'', Dir [])]) [] [''node_modules''] 10 0 =
     generate_directory_structure
       (Dir [(''src'', Dir [(''b.ts'', File None), (''a.ts'', File None)]),
             (''docs'', Dir [])]) [] [] 10 0"
  using ignored_entries_absent[of "[''node_modules'']" "[]" "''node_modules''"
      "Dir [(''x.js'', File None)]" "[(''src'', Dir [])]" 10 0 "[]"
      "Dir [(''src'', Dir [(''b.ts'', File None), (''a.ts'', File None)]),
             (''node_modules'', Dir [(''x.js'', File None)]),
             (''docs'', Dir [])]"]
  by (simp add: should_ignore_matches[symmetric])

subsection \<open>C4: what is rendered for an entry\<close>

text \<open>
  Claim C4, as the code has it. The claim writes the tags with double quotes around the
  name; the f-strings of the code use single quotes, so the text differs at two bytes per
  tag.
\<close>

theorem double_quotes_counterexample:
  "generate_directory_structure (Dir [(''a'', File None)]) [] [] 10 0 =
     Inr (''<file name='' @ [CHR 0x27] @ ''a'' @ [CHR 0x27] @ ''/>'') \<and>
   generate_directory_structure (Dir [(''a'', File None)]) [] [] 10 0 \<noteq>
     Inr (''<file name='' @ [CHR 0x22] @ ''a'' @ [CHR 0x22] @ ''/>'')"
  by (simp add: eval_simps)

text \<open>
  Claim C4, amended to the single quote. For an entry that is not ignored the loop
  appends, for a directory, \<^verbatim>\<open><folder name='X'>\<close>, a newline, the rendering of its
  children and \<^verbatim>\<open></folder>\<close>, or \<^verbatim>\<open><folder name='X'/>\<close> when that rendering is the empty
  text, and for anything else \<^verbatim>\<open><file name='X'/>\<close>; an exception of the recursive call ends
  the loop. The rendering of the children is empty for a directory with no entries, for
  one whose entries are all ignored, and for any call at a depth that has reached the
  maximum.
\<close>

theorem entry_rendering:
  "(\<not> should_ignore (root_path @ [name]) patterns \<longrightarrow>
      loop_items ((name, item) # rest) root_path patterns max_depth current_depth items =
        (if is_dir item then
           (case generate_directory_structure item (root_path @ [name]) patterns
                   max_depth (current_depth + 1) of
              Inl e \<Rightarrow> (items, Some e)
            | Inr sub_structure \<Rightarrow>
                loop_items rest root_path patterns max_depth current_depth
                  (items @
                   [if sub_structure = []
                    then ''<folder name='' @ [CHR 0x27] @ name @ [CHR 0x27] @ ''/>''
                    else ''<folder name='' @ [CHR 0x27] @ name @ [CHR 0x27] @ ''>'' @
                         ''\<newline>'' @ sub_structure @ ''</folder>'']))
         else loop_items rest root_path patterns max_depth current_depth
                (items @ [''<file name='' @ [CHR 0x27] @ name @ [CHR 0x27] @ ''/>'']))) \<and>
   generate_directory_structure (Dir []) root_path patterns max_depth current_depth = Inr [] \<and>
   ((\<forall>(name, item)\<in>set entries. should_ignore (root_path @ [name]) patterns) \<longrightarrow>
      generate_directory_structure (Dir entries) root_path patterns max_depth current_depth
        = Inr []) \<and>
   generate_directory_structure fs root_path patterns max_depth (max_depth + k) = Inr []"
proof (intro conjI impI)
  assume ni: "\<not> should_ignore (root_path @ [name]) patterns"
  show "loop_items ((name, item) # rest) root_path patterns max_depth current_depth items =
        (if is_dir item then
           (case generate_directory_structure item (root_path @ [name]) patterns
                   max_depth (current_depth + 1) of
              Inl e \<Rightarrow> (items, Some e)
            | Inr sub_structure \<Rightarrow>
                loop_items rest root_path patterns max_depth current_depth
                  (items @
                   [if sub_structure = []
                    then ''<folder name='' @ [CHR 0x27] @ name @ [CHR 0x27] @ ''/>''
                    else ''<folder name='' @ [CHR 0x27] @ name @ [CHR 0x27] @ ''>'' @
                         ''\<newline>'' @ sub_structure @ ''</folder>'']))
         else loop_items rest root_path patterns max_depth current_depth
                (items @ [''<file name='' @ [CHR 0x27] @ name @ [CHR 0x27] @ ''/>'']))"
  proof (cases "generate_directory_structure item (root_path @ [name]) patterns
                   max_depth (current_depth + 1)")
    case (Inl e)
    with ni show ?thesis by (simp add: file_tag_def)
  next
    case (Inr sub)
    from generate_strip[OF Inr] have "strip sub = [] \<longleftrightarrow> sub = []" by simp
    with ni Inr show ?thesis
      by (simp add: file_tag_def folder_open_def folder_empty_def)
  qed
next
  show "generate_directory_structure (Dir []) root_path patterns max_depth current_depth = Inr []"
    by simp
next
  assume "\<forall>(name, item)\<in>set entries. should_ignore (root_path @ [name]) patterns"
  then have "\<forall>(name, item)\<in>set (sort_key fst entries). should_ignore (root_path @ [name]) patterns"
    by simp
  then have "loop_items (sort_key fst entries) root_path patterns max_depth current_depth [] = ([], None)"
    by (rule loop_items_all_ignored)
  then show "generate_directory_structure (Dir entries) root_path patterns max_depth current_depth = Inr []"
    by (simp add: generate_directory_structure.simps)
next
  show "generate_directory_structure fs root_path patterns max_depth (max_depth + k) = Inr []"
    by (simp add: generate_at_limit)
qed

theorem entry_rendering_witness:
  "\<not> should_ignore ([] @ [''src'']) [''node_modules''] \<and>
   loop_items ((''src'', Dir [(''a.ts'', File None)]) # [(''docs'', Dir []), (''x'', File None)])
       [] [''node_modules''] 10 0 [] =
     ([''<folder name='' @ [CHR 0x27] @ ''src'' @ [CHR 0x27] @ ''>'' @ ''\<newline>'' @
         (''<file name='' @ [CHR 0x27] @ ''a.ts'' @ [CHR 0x27] @ ''/>'') @ ''</folder>'',
       ''<folder name='' @ [CHR 0x27] @ ''docs'' @ [CHR 0x27] @ ''/>'',
       ''<file name='' @ [CHR 0x27] @ ''x'' @ [CHR 0x27] @ ''/>''], None) \<and>
   should_ignore ([] @ [''node_modules'']) [''node_modules''] \<and>
   generate_directory_structure (Dir [(''node_modules'', Dir [(''x.js'', File None)])]) []
       [''node_modules''] 10 0 = Inr []"
  using entry_rendering[of "[]" "''src''" "[''node_modules'']" "Dir [(''a.ts'', File None)]"
      "[(''docs'', Dir []), (''x'', File None)]" 10 0 "[]"
      "[(''node_modules'', Dir [(''x.js'', File None)])]"]
  by (simp add: eval_simps)

subsection \<open>C5: the depth limit\<close>

text \<open>
  Claim C5. A call whose depth has reached the maximum returns the empty text, whatever
  node it is called on, and raises nothing. The output for a tree is therefore the
  output for the tree cut at the limit (\<open>trunc\<close>: every directory at the cutoff is left
  empty), and on the cut tree a larger limit changes nothing. Above the cutoff the
  rendering is the usual one: a directory at a depth below the maximum is rendered as
  the newline join of the tags of its entries that are not ignored, in sorted order,
  where the tag of a directory wraps the rendering of the call one level down; at the
  last level before the maximum that call returns the empty text, so there a directory
  is the self-closing \<^verbatim>\<open><folder name='X'/>\<close> and a file is \<^verbatim>\<open><file name='X'/>\<close>, with no
  marker of the cut and no exception, whatever lies below.
\<close>

theorem depth_truncation:
  "generate_directory_structure fs root_path patterns max_depth (max_depth + k) = Inr [] \<and>
   generate_directory_structure fs root_path patterns max_depth current_depth =
     generate_directory_structure (trunc (max_depth - current_depth) fs) root_path patterns
       (max_depth + j) current_depth \<and>
   (current_depth < max_depth \<longrightarrow>
      generate_directory_structure (Dir entries) root_path patterns max_depth current_depth =
        (case collect (map (entry_tag root_path patterns max_depth current_depth)
                         (filter (\<lambda>(name, item). \<not> should_ignore (root_path @ [name]) patterns)
                            (sort_key fst entries))) of
           (ts, None) \<Rightarrow> Inr (join ''\<newline>'' ts)
         | (ts, Some e) \<Rightarrow> Inl e)) \<and>
   entry_tag root_path patterns (Suc current_depth) current_depth (name, item) =
     Inr (if is_dir item then ''<folder name='' @ [CHR 0x27] @ name @ [CHR 0x27] @ ''/>''
          else ''<file name='' @ [CHR 0x27] @ name @ [CHR 0x27] @ ''/>'') \<and>
   generate_directory_structure (Dir entries) root_path patterns (Suc current_depth) current_depth =
     Inr (join ''\<newline>''
            (map (\<lambda>(name, item).
                    if is_dir item then ''<folder name='' @ [CHR 0x27] @ name @ [CHR 0x27] @ ''/>''
                    else ''<file name='' @ [CHR 0x27] @ name @ [CHR 0x27] @ ''/>'')
               (filter (\<lambda>(name, item). \<not> should_ignore (root_path @ [name]) patterns)
                  (sort_key fst entries))))"
proof (intro conjI impI)
  show "generate_directory_structure fs root_path patterns max_depth (max_depth + k) = Inr []"
    by (simp add: generate_at_limit)
  show "generate_directory_structure fs root_path patterns max_depth current_depth =
     generate_directory_structure (trunc (max_depth - current_depth) fs) root_path patterns
       (max_depth + j) current_depth"
    by (rule trunc_invariant(1))
  show "entry_tag root_path patterns (Suc current_depth) current_depth (name, item) =
     Inr (if is_dir item then ''<folder name='' @ [CHR 0x27] @ name @ [CHR 0x27] @ ''/>''
          else ''<file name='' @ [CHR 0x27] @ name @ [CHR 0x27] @ ''/>'')"
    by (rule entry_tag_last_level)
  show "generate_directory_structure (Dir entries) root_path patterns (Suc current_depth) current_depth =
     Inr (join ''\<newline>''
            (map (\<lambda>(name, item).
                    if is_dir item then ''<folder name='' @ [CHR 0x27] @ name @ [CHR 0x27] @ ''/>''
                    else ''<file name='' @ [CHR 0x27] @ name @ [CHR 0x27] @ ''/>'')
               (filter (\<lambda>(name, item). \<not> should_ignore (root_path @ [name]) patterns)
                  (sort_key fst entries))))"
    by (rule generate_last_level)
next
  assume "current_depth < max_depth"
  then show "generate_directory_structure (Dir entries) root_path patterns max_depth current_depth =
        (case collect (map (entry_tag root_path patterns max_depth current_depth)
                         (filter (\<lambda>(name, item). \<not> should_ignore (root_path @ [name]) patterns)
                            (sort_key fst entries))) of
           (ts, None) \<Rightarrow> Inr (join ''\<newline>'' ts)
         | (ts, Some e) \<Rightarrow> Inl e)"
    by (rule generate_Dir_collect)
qed

text \<open>
  At a concrete tree four levels deep and the maximum 2: the folder \<^verbatim>\<open>a\<close> wraps the
  self-closing \<^verbatim>\<open>b\<close> and the file \<^verbatim>\<open>f\<close>; a directory at the cutoff that cannot be listed
  is rendered the same way.
\<close>

theorem depth_truncation_witness:
  "generate_directory_structure (Unlistable OtherOSError) [] [] 2 (2 + 0) = Inr [] \<and>
   generate_directory_structure
       (Dir [(''a'', Dir [(''b'', Dir [(''c'', Dir [(''d'', File None)])]), (''f'', File None)])])
       [] [] 2 0 =
     generate_directory_structure
       (Dir [(''a'', Dir [(''b'', Dir []), (''f'', File None)])]) [] [] (2 + 8) 0 \<and>
   (0::nat) < 2 \<and>
   generate_directory_structure
       (Dir [(''a'', Dir [(''b'', Dir [(''c'', Dir [(''d'', File None)])]), (''f'', File None)])])
       [] [] 2 0 =
     Inr (''<folder name='' @ [CHR 0x27] @ ''a'' @ [CHR 0x27] @ ''>'' @ ''\<newline>'' @
          ''<folder name='' @ [CHR 0x27] @ ''b'' @ [CHR 0x27] @ ''/>'' @ ''\<newline>'' @
          ''<file name='' @ [CHR 0x27] @ ''f'' @ [CHR 0x27] @ ''/>'' @ ''</folder>'') \<and>
   generate_directory_structure
       (Dir [(''b'', Unlistable OtherOSError), (''f'', File None)]) [''a''] [] 2 1 =
     Inr (''<folder name='' @ [CHR 0x27] @ ''b'' @ [CHR 0x27] @ ''/>'' @ ''\<newline>'' @
          ''<file name='' @ [CHR 0x27] @ ''f'' @ [CHR 0x27] @ ''/>'')"
  using depth_truncation[of "Unlistable OtherOSError" "[]" "[]" 2 0]
    depth_truncation[of "Dir [(''a'', Dir [(''b'', Dir [(''c'', Dir [(''d'', File None)])]), (''f'', File None)])]"
      "[]" "[]" 2 0 0 8
      "[(''a'', Dir [(''b'', Dir [(''c'', Dir [(''d'', File None)])]), (''f'', File None)])]"]
    depth_truncation[of "Dir []" "[''a'']" "[]" 2 0 1 0
      "[(''b'', Unlistable OtherOSError), (''f'', File None)]"]
  by (simp add: numeral_2_eq_2 entry_tag_def eval_simps)

subsection \<open>C6: errors of the listing\<close>

text \<open>
  Claim C6. A directory whose listing raises \<^verbatim>\<open>PermissionError\<close> is rendered as if it had
  no entries, wherever it stands in the tree (\<open>grant\<close> puts an empty directory in the
  place of each), and nothing is reported. Any other error of a listing leaves the
  call that met it; an error that leaves the call for an entry leaves the call for the
  directory that holds the entry too, as an error other than \<^verbatim>\<open>PermissionError\<close>, so no
  handler on the way up takes it; and an error that leaves the outermost call leaves
  \<^verbatim>\<open>main\<close>.
\<close>

theorem only_permission_errors_caught:
  "generate_directory_structure fs root_path patterns max_depth current_depth =
     generate_directory_structure (grant fs) root_path patterns max_depth current_depth \<and>
   (current_depth < max_depth \<and> e \<noteq> PermissionError \<longrightarrow>
      generate_directory_structure (Unlistable e) root_path patterns max_depth current_depth
        = Inl e) \<and>
   (current_depth < max_depth \<and> (name, item) \<in> set entries \<and> is_dir item \<and>
    \<not> should_ignore (root_path @ [name]) patterns \<and>
    generate_directory_structure item (root_path @ [name]) patterns max_depth
      (current_depth + 1) = Inl e \<longrightarrow>
      (\<exists>e'. e' \<noteq> PermissionError \<and>
         generate_directory_structure (Dir entries) root_path patterns max_depth current_depth
           = Inl e')) \<and>
   (generate_directory_structure cwd [] ignore_patterns 10 0 = Inl e \<longrightarrow> main cwd = Inl e)"
proof (intro conjI impI)
  show "generate_directory_structure fs root_path patterns max_depth current_depth =
     generate_directory_structure (grant fs) root_path patterns max_depth current_depth"
    by (rule grant_invariant(1))
next
  assume "current_depth < max_depth \<and> e \<noteq> PermissionError"
  then show "generate_directory_structure (Unlistable e) root_path patterns max_depth current_depth
        = Inl e"
    by (simp add: generate_Unlistable)
next
  assume a: "current_depth < max_depth \<and> (name, item) \<in> set entries \<and> is_dir item \<and>
    \<not> should_ignore (root_path @ [name]) patterns \<and>
    generate_directory_structure item (root_path @ [name]) patterns max_depth
      (current_depth + 1) = Inl e"
  let ?rs = "map (entry_tag root_path patterns max_depth current_depth)
                      (filter (\<lambda>(name, item). \<not> should_ignore (root_path @ [name]) patterns)
                         (sort_key fst entries))"
  from a have "entry_tag root_path patterns max_depth current_depth (name, item) = Inl e"
    by (simp add: entry_tag_def)
  moreover from a have "(name, item) \<in> set (filter (\<lambda>(name, item). \<not> should_ignore (root_path @ [name]) patterns)
                         (sort_key fst entries))"
    by simp
  ultimately have "Inl e \<in> set ?rs"
    by (metis (no_types, lifting) image_eqI list.set_map)
  then obtain e' where e': "snd (collect ?rs) = Some e'"
    using collect_error by blast
  from a have lt: "current_depth < max_depth" by simp
  from e' have g: "generate_directory_structure (Dir entries) root_path patterns max_depth current_depth = Inl e'"
    by (cases "collect ?rs") (simp add: generate_Dir_collect[OF lt])
  with generate_no_PermissionError[of "Dir entries" root_path patterns max_depth current_depth]
  have "e' \<noteq> PermissionError" by auto
  with g show "\<exists>e'. e' \<noteq> PermissionError \<and>
         generate_directory_structure (Dir entries) root_path patterns max_depth current_depth
           = Inl e'" by blast
next
  assume "generate_directory_structure cwd [] ignore_patterns 10 0 = Inl e"
  then show "main cwd = Inl e" by (simp add: main_def)
qed

theorem only_permission_errors_caught_witness:
  "generate_directory_structure
      (Dir [(''src'', Dir [(''secret'', Unlistable PermissionError), (''a.ts'', File None)])])
      [] [] 10 0 =
     generate_directory_structure
      (Dir [(''src'', Dir [(''secret'', Dir []), (''a.ts'', File None)])]) [] [] 10 0 \<and>
   generate_directory_structure (Unlistable FileNotFoundError) [''src''] [] 10 1
     = Inl FileNotFoundError \<and>
   (\<exists>e'. e' \<noteq> PermissionError \<and>
      generate_directory_structure
        (Dir [(''a.ts'', File None), (''src'', Unlistable FileNotFoundError)]) [] [] 10 0
        = Inl e') \<and>
   main (Unlistable OtherOSError) = Inl OtherOSError"
  using only_permission_errors_caught[of
      "Dir [(''src'', Dir [(''secret'', Unlistable PermissionError), (''a.ts'', File None)])]"
      "[]" "[]" 10 0 FileNotFoundError "''src''" "Unlistable FileNotFoundError"
      "[(''a.ts'', File None), (''src'', Unlistable FileNotFoundError)]"]
    only_permission_errors_caught[of "Dir []" "[''src'']" "[]" 10 1 FileNotFoundError]
    only_permission_errors_caught[of "Dir []" "[]" "[]" 10 0 OtherOSError _ _ _ "Unlistable OtherOSError"]
  by (simp add: generate_directory_structure.simps)

subsection \<open>C7: determinism and the order of siblings\<close>



subsection \<open>C3: the number in the summary line\<close>

text \<open>
  Claim C3 says that the summary line reports how many \<^verbatim>\<open><file\<close> tokens the rendered text
  holds. The code prints \<^verbatim>\<open>len(structure.split('<file'))\<close>, the number of pieces the
  tokens cut the text into, which is one more than the number of tokens: for a directory
  with no entries the text is empty, no token occurs and the line reports 1; for a
  directory with one file it reports 2.
\<close>

theorem summary_counts_one_too_many:
  "main (Dir []) = Inr ([], 1) \<and> count_tokens ''<file'' [] = 0 \<and>
   main (Dir [(''a'', File None)]) = Inr (file_tag ''a'', 2) \<and>
   count_tokens ''<file'' (file_tag ''a'') = 1 \<and>
   length (split ''<file'' s) = Suc (count_tokens ''<file'' s)"
  by (simp add: main_def split_def split_from_length eval_simps ignore_patterns_def)

subsection \<open>C10: the pattern \<^verbatim>\<open>*.log\<close>\<close>






section \<open>Lemmas about the watcher\<close>

text \<open>A pass is the loop body run over the files it meets, in order.\<close>

lemma fold_files:
  "fold (\<lambda>(file, mtime). check_file (os_path_join root file) mtime) files st =
   fold record_file (concat (map (\<lambda>(file, mtime). case mtime of None \<Rightarrow> [] | Some m \<Rightarrow> [(os_path_join root file, m)]) files)) st"
proof (induction files arbitrary: st)
  case Nil
  show ?case by simp
next
  case (Cons a files)
  obtain fname mtime where a: "a = (fname, mtime)" by (cases a)
  obtain lm ch where st: "st = (lm, ch)" by (cases st)
  show ?case unfolding a st by (cases mtime) (simp_all add: Cons.IH)
qed

lemma seen_under_alt:
  "seen_under watch_dir fs =
     concat (map (\<lambda>(root, dirs, files).
        concat (map (\<lambda>(file, mtime). case mtime of None \<Rightarrow> [] | Some m \<Rightarrow> [(os_path_join root file, m)]) files))
       (os_walk (\<lambda>d. d \<notin> set skip_dirs) watch_dir fs))"
  unfolding seen_under_def
  by (rule arg_cong[where f = concat], rule map_cong, simp)
     (auto intro!: arg_cong[where f = concat] map_cong split: option.splits)

lemma scan_watch_dir_seen:
  "scan_watch_dir cwd watch_dir st =
     fold record_file (case map_of cwd watch_dir of None \<Rightarrow> [] | Some fs \<Rightarrow> seen_under watch_dir fs) st"
proof (cases "map_of cwd watch_dir")
  case None
  then show ?thesis by (simp add: scan_watch_dir_def)
next
  case (Some fs)
  let ?F = "\<lambda>(root, dirs, files) st'.
                  fold (\<lambda>(file, mtime). check_file (os_path_join root file) mtime) files st'"
  let ?G = "\<lambda>(root, dirs, files).
        concat (map (\<lambda>(file, mtime). case mtime of None \<Rightarrow> [] | Some m \<Rightarrow> [(os_path_join root file, m)]) files)"
  have FG: "?F w st = fold record_file (?G w) st" for w st
    by (cases w) (simp add: fold_files)
  have "fold ?F ws st = fold record_file (concat (map ?G ws)) st" for ws
  proof (induction ws arbitrary: st)
    case Nil
    show ?case by simp
  next
    case (Cons w ws)
    have "fold ?F (w # ws) st = fold ?F ws (?F w st)" by simp
    also have "\<dots> = fold record_file (concat (map ?G ws)) (?F w st)" by (rule Cons.IH)
    also have "\<dots> = fold record_file (concat (map ?G ws)) (fold record_file (?G w) st)"
      by (simp only: FG)
    also have "\<dots> = fold record_file (concat (map ?G (w # ws))) st" by simp
    finally show ?case .
  qed
  with Some show ?thesis by (simp add: scan_watch_dir_def seen_under_alt)
qed

lemma poll_seen: "poll cwd last_modified = fold record_file (seen cwd) (last_modified, False)"
proof -
  have "fold (scan_watch_dir cwd) ws st =
     fold record_file (concat (map (\<lambda>watch_dir. case map_of cwd watch_dir of
                                  None \<Rightarrow> []
                                | Some fs \<Rightarrow> seen_under watch_dir fs) ws)) st" for ws st
    by (induction ws arbitrary: st) (simp_all add: scan_watch_dir_seen)
  then show ?thesis by (simp add: poll_def seen_def)
qed

text \<open>What the loop body, run over a list of files, leaves in \<^verbatim>\<open>changed\<close> and in the table.\<close>

lemma fold_record_changed:
  "snd (fold record_file xs (lm, ch)) \<longleftrightarrow> ch \<or> (\<exists>(p, m)\<in>set xs. lm p \<noteq> Some m)"
proof (induction xs arbitrary: lm ch)
  case Nil
  show ?case by simp
next
  case (Cons x xs)
  obtain p m where x: "x = (p, m)" by (cases x)
  show ?case
  proof (cases "lm p = Some m")
    case True
    then show ?thesis unfolding x by (simp add: Cons.IH)
  next
    case False
    then have "fold record_file (x # xs) (lm, ch) = fold record_file xs (lm(p \<mapsto> m), True)"
      unfolding x by auto
    with False show ?thesis unfolding x by (auto simp: Cons.IH)
  qed
qed

lemma fold_record_table:
  "fst (fold record_file xs (lm, ch)) = lm ++ map_of (rev xs)"
proof (induction xs arbitrary: lm ch)
  case Nil
  show ?case by simp
next
  case (Cons x xs)
  obtain p m where x: "x = (p, m)" by (cases x)
  have "fold record_file (x # xs) (lm, ch) = fold record_file xs (lm(p \<mapsto> m), ch \<or> lm p \<noteq> Some m)"
  proof (cases "lm p = Some m")
    case True
    then have "lm(p \<mapsto> m) = lm" by (simp add: fun_upd_idem)
    with True show ?thesis unfolding x by simp
  next
    case False
    then show ?thesis unfolding x by auto
  qed
  then have "fst (fold record_file (x # xs) (lm, ch)) = lm(p \<mapsto> m) ++ map_of (rev xs)"
    by (simp only: Cons.IH)
  also have "\<dots> = (lm ++ map_of [(p, m)]) ++ map_of (rev xs)"
    by simp
  also have "\<dots> = lm ++ map_of (rev (x # xs))"
    unfolding x by (simp only: rev.simps map_of_append map_add_assoc)
  finally show ?case .
qed

text \<open>The files met in a directory: its own files first, then those of the directories the walk enters.\<close>

lemma concat_map_concat_map:
  "concat (map g (concat (map h xs))) = concat (map (\<lambda>x. concat (map g (h x))) xs)"
  by (induction xs) simp_all

lemma files_comprehension:
  "concat (map (\<lambda>(file, mtime). case mtime of None \<Rightarrow> [] | Some m \<Rightarrow> [(os_path_join root file, m)])
     [(file, mtime). (file, File mtime) \<leftarrow> entries]) = files_part root entries"
proof (induction entries)
  case Nil
  show ?case by (simp add: files_part_def)
next
  case (Cons a entries)
  obtain name item where a: "a = (name, item)" by (cases a)
  from Cons show ?case unfolding a files_part_def
    by (cases item) (simp_all split: option.splits)
qed

lemma seen_under_Dir:
  "seen_under root (Dir entries) =
     files_part root entries @
     concat (map (\<lambda>(d, sub). if is_dir sub \<and> d \<notin> set skip_dirs
                               then seen_under (os_path_join root d) sub else []) entries)"
proof -
  let ?G = "\<lambda>(root, dirs, files).
        concat (map (\<lambda>(file, mtime). case mtime of None \<Rightarrow> [] | Some m \<Rightarrow> [(os_path_join root file, m)]) files)"
  have sub: "concat (map ?G (case e of (d, sub) \<Rightarrow> if is_dir sub \<and> d \<notin> set skip_dirs
                 then os_walk (\<lambda>d. d \<notin> set skip_dirs) (os_path_join root d) sub else []))
      = (case e of (d, sub) \<Rightarrow> if is_dir sub \<and> d \<notin> set skip_dirs
                               then seen_under (os_path_join root d) sub else [])" for e
    by (cases e) (auto simp: seen_under_alt)
  have "seen_under root (Dir entries) =
      ?G (root, [d. (d, sub) \<leftarrow> entries, is_dir sub, d \<notin> set skip_dirs],
             [(file, mtime). (file, File mtime) \<leftarrow> entries]) @
      concat (map ?G (concat (map (\<lambda>(d, sub). if is_dir sub \<and> d \<notin> set skip_dirs
                 then os_walk (\<lambda>d. d \<notin> set skip_dirs) (os_path_join root d) sub else []) entries)))"
    unfolding seen_under_alt[of root "Dir entries"] os_walk.simps by simp
  also have "\<dots> = files_part root entries @
      concat (map ?G (concat (map (\<lambda>(d, sub). if is_dir sub \<and> d \<notin> set skip_dirs
                 then os_walk (\<lambda>d. d \<notin> set skip_dirs) (os_path_join root d) sub else []) entries)))"
    by (simp only: prod.case files_comprehension)
  also have "\<dots> = files_part root entries @
     concat (map (\<lambda>(d, sub). if is_dir sub \<and> d \<notin> set skip_dirs
                               then seen_under (os_path_join root d) sub else []) entries)"
    by (simp only: concat_map_concat_map sub)
  finally show ?thesis .
qed

lemma seen_under_not_Dir [simp]:
  "seen_under root (File mtime) = []" "seen_under root (Unlistable e) = []"
  by (simp_all add: seen_under_def)



lemma first_part_name [simp]:
  "CHR ''/'' \<notin> set name \<Longrightarrow> first_part name = name"
  "CHR ''/'' \<notin> set name \<Longrightarrow> first_part (name @ CHR ''/'' # r) = name"
  by (auto simp: first_part_def takeWhile_eq_all_conv takeWhile_tail)









lemma poll_changed:
  "snd (poll cwd lm) \<longleftrightarrow> (\<exists>(p, m)\<in>set (seen cwd). lm p \<noteq> Some m)"
  by (simp add: poll_seen fold_record_changed)

lemma poll_table: "fst (poll cwd lm) = lm ++ map_of (rev (seen cwd))"
  by (simp add: poll_seen fold_record_table)


text \<open>A file reached through directories that are not skipped is met by the pass.\<close>

lemma descend_seen:
  assumes "descend fs (ds @ [f]) = Some (File (Some m))" "set ds \<inter> set skip_dirs = {}"
  shows "(foldl os_path_join t (ds @ [f]), m) \<in> set (seen_under t fs)"
  using assms
proof (induction ds arbitrary: t fs)
  case Nil
  from Nil.prems(1) obtain entries where fs: "fs = Dir entries"
    by (cases fs) simp_all
  with Nil.prems(1) have "map_of entries f = Some (File (Some m))"
    by (simp split: option.splits)
  then have "(f, File (Some m)) \<in> set entries" by (rule map_of_SomeD)
  then have "(os_path_join t f, m) \<in> set (files_part t entries)"
    by (force simp: files_part_def)
  then show ?case by (simp add: fs seen_under_Dir)
next
  case (Cons d ds)
  from Cons.prems(1) obtain entries where fs: "fs = Dir entries"
    by (cases fs) simp_all
  with Cons.prems(1) obtain sub where sub: "map_of entries d = Some sub"
    and rest: "descend sub (ds @ [f]) = Some (File (Some m))"
    by (auto split: option.splits)
  from rest have "is_dir sub" by (cases sub; cases ds) simp_all
  from sub have mem: "(d, sub) \<in> set entries" by (rule map_of_SomeD)
  from Cons.prems(2) have d: "d \<notin> set skip_dirs" and ds: "set ds \<inter> set skip_dirs = {}" by auto
  from Cons.IH[OF rest ds, of "os_path_join t d"]
  have "(foldl os_path_join (os_path_join t d) (ds @ [f]), m) \<in> set (seen_under (os_path_join t d) sub)" .
  with mem d \<open>is_dir sub\<close> have "(foldl os_path_join t ((d # ds) @ [f]), m) \<in>
      set (concat (map (\<lambda>(d, sub). if is_dir sub \<and> d \<notin> set skip_dirs
                               then seen_under (os_path_join t d) sub else []) entries))"
    by force
  then show ?case by (simp add: fs seen_under_Dir)
qed

lemma seen_under_in_seen:
  assumes "w \<in> set watch_dirs" "map_of cwd w = Some fs" "x \<in> set (seen_under w fs)"
  shows "x \<in> set (seen cwd)"
  using assms by (force simp: seen_def)

lemma is_dir_drop_skipped [simp]: "is_dir (drop_skipped item) = is_dir item"
  by (cases item) simp_all

text \<open>The walk does not look into a directory with a skipped name.\<close>

lemma os_walk_drop_skipped:
  "os_walk (\<lambda>d. d \<notin> set skip_dirs) t (drop_skipped fs) = os_walk (\<lambda>d. d \<notin> set skip_dirs) t fs"
proof (induction fs arbitrary: t)
  case (File mtime)
  show ?case by simp
next
  case (Unlistable e)
  show ?case by simp
next
  case (Dir entries)
  let ?keep = "\<lambda>d. d \<notin> set skip_dirs"
  let ?kept = "map (\<lambda>(name, item). (name, drop_skipped item))
            (filter (\<lambda>(name, item). \<not> (is_dir item \<and> name \<in> set skip_dirs)) entries)"
  have IH: "os_walk ?keep t' (drop_skipped item) = os_walk ?keep t' item"
    if "(name, item) \<in> set entries" for name item t'
    using Dir.IH[of "(name, item)" item t'] that by simp
  have "[d. (d, sub) \<leftarrow> map (\<lambda>(name, item). (name, drop_skipped item))
            (filter (\<lambda>(name, item). \<not> (is_dir item \<and> name \<in> set skip_dirs)) es), is_dir sub, ?keep d]
        = [d. (d, sub) \<leftarrow> es, is_dir sub, ?keep d] \<and>
        [(file, mtime). (file, File mtime) \<leftarrow> map (\<lambda>(name, item). (name, drop_skipped item))
            (filter (\<lambda>(name, item). \<not> (is_dir item \<and> name \<in> set skip_dirs)) es)]
        = [(file, mtime). (file, File mtime) \<leftarrow> es] \<and>
        concat (map (\<lambda>(d, sub). if is_dir sub \<and> ?keep d then os_walk ?keep (os_path_join t d) sub else [])
            (map (\<lambda>(name, item). (name, drop_skipped item))
            (filter (\<lambda>(name, item). \<not> (is_dir item \<and> name \<in> set skip_dirs)) es)))
        = concat (map (\<lambda>(d, sub). if is_dir sub \<and> ?keep d then os_walk ?keep (os_path_join t d) sub else []) es)"
    if "set es \<subseteq> set entries" for es
    using that
  proof (induction es)
    case Nil
    show ?case by simp
  next
    case (Cons e es)
    obtain name item where e: "e = (name, item)" by (cases e)
    from Cons.prems e have mem: "(name, item) \<in> set entries" by simp
    from Cons.prems have "set es \<subseteq> set entries" by simp
    note ih = Cons.IH[OF this]
    show ?case unfolding e using ih IH[OF mem]
      by (cases item) simp_all
  qed
  from this[of entries] show ?case by simp
qed

lemma iteration_drop_skipped:
  "iteration (map (\<lambda>(name, item). (name, drop_skipped item)) cwd) lm = iteration cwd lm"
proof -
  have m: "map_of (map (\<lambda>(name, item). (name, drop_skipped item)) cwd) w =
        map_option drop_skipped (map_of cwd w)" for w
    by (simp add: map_of_map)
  have "scan_watch_dir (map (\<lambda>(name, item). (name, drop_skipped item)) cwd) w st =
        scan_watch_dir cwd w st" for w st
    unfolding scan_watch_dir_def m
    by (cases "map_of cwd w") (simp_all add: os_walk_drop_skipped)
  then have "scan_watch_dir (map (\<lambda>(name, item). (name, drop_skipped item)) cwd) =
        scan_watch_dir cwd" by (intro ext)
  then show ?thesis by (simp add: iteration_def poll_def)
qed

lemma iteration_calls:
  "snd (iteration cwd lm) = (if snd (poll cwd lm) then 1 else 0)"
  "fst (iteration cwd lm) = fst (poll cwd lm)"
  by (simp_all add: iteration_def split: prod.splits)

lemma watch_loop_Cons:
  "fst (watch_loop (cwd # later) lm) = fst (watch_loop later (fst (iteration cwd lm)))"
  by (cases "iteration cwd lm"; cases "watch_loop later (fst (iteration cwd lm))") simp

lemma watch_loop_append:
  "fst (watch_loop (xs @ ys) lm) = fst (watch_loop ys (fst (watch_loop xs lm)))"
proof (induction xs arbitrary: lm)
  case Nil
  show ?case by simp
next
  case (Cons cwd xs)
  show ?case by (simp only: append_Cons watch_loop_Cons Cons.IH)
qed

lemma watch_loop_dom: "dom lm \<subseteq> dom (fst (watch_loop ys lm))"
proof (induction ys arbitrary: lm)
  case Nil
  show ?case by simp
next
  case (Cons cwd ys)
  have "dom lm \<subseteq> dom (fst (iteration cwd lm))"
    by (simp add: iteration_calls poll_table)
  also have "\<dots> \<subseteq> dom (fst (watch_loop ys (fst (iteration cwd lm))))"
    by (rule Cons.IH)
  finally show ?case by (simp only: watch_loop_Cons)
qed

lemmas watch_eval =
  iteration_def poll_def scan_watch_dir_def watch_dirs_def skip_dirs_def os_path_join_def
  suffix_def


section \<open>Properties of the watcher\<close>

subsection \<open>C2: one generator call for a pass that saw a change\<close>



subsection \<open>C8: the table of modification times\<close>

text \<open>
  Claim C8. An iteration leaves the table as it was, but for the files the pass met,
  which it maps to the times read; no path leaves the table, in one iteration or over
  any number of them, and the table of a run starts empty.
\<close>

theorem table_only_grows:
  "fst (iteration cwd lm) = lm ++ map_of (rev (seen cwd)) \<and>
   dom lm \<subseteq> dom (fst (iteration cwd lm)) \<and>
   fst (watch_and_regenerate []) = Map.empty \<and>
   dom (fst (watch_and_regenerate snapshots))
     \<subseteq> dom (fst (watch_and_regenerate (snapshots @ later)))"
  using watch_loop_dom[of "fst (watch_loop snapshots Map.empty)" later]
  by (simp add: iteration_calls poll_table watch_and_regenerate_def watch_loop_append)

theorem table_only_grows_witness:
  "fst (iteration [(''src'', Dir [(''a.ts'', File (Some 1))])] [''src/old.ts'' \<mapsto> 7]) =
     [''src/old.ts'' \<mapsto> 7, ''src/a.ts'' \<mapsto> 1] \<and>
   fst (watch_and_regenerate []) = Map.empty"
  using table_only_grows[of "[(''src'', Dir [(''a.ts'', File (Some 1))])]" "[''src/old.ts'' \<mapsto> 7]"]
  by (simp add: watch_eval)

subsection \<open>C9: which directories the watcher leaves out\<close>

text \<open>
  Claim C9. The walk leaves out the directories whose name is one of \<^verbatim>\<open>node_modules\<close>,
  \<^verbatim>\<open>.git\<close>, \<^verbatim>\<open>dist\<close> and \<^verbatim>\<open>build\<close>, and only those: an iteration on the tree without them
  does what it does on the whole tree, and a file reached from a watch directory through
  directories of any other name is met, so a time of that file that the table does not
  hold makes the iteration call the generator. Such names are \<^verbatim>\<open>mybuild\<close>, \<^verbatim>\<open>coverage\<close>,
  \<^verbatim>\<open>venv\<close> and \<^verbatim>\<open>__pycache__\<close>, all of which the generator ignores.
\<close>

theorem watcher_prunes_exact_names_only:
  "iteration (map (\<lambda>(name, item). (name, drop_skipped item)) cwd) lm = iteration cwd lm \<and>
   (w \<in> set watch_dirs \<and> map_of cwd w = Some fs \<and>
    descend fs (ds @ [f]) = Some (File (Some m)) \<and> set ds \<inter> set skip_dirs = {} \<and>
    lm (foldl os_path_join w (ds @ [f])) \<noteq> Some m \<longrightarrow>
      snd (iteration cwd lm) = 1) \<and>
   ''mybuild'' \<notin> set skip_dirs \<and> should_ignore [''src'', ''mybuild''] ignore_patterns \<and>
   ''coverage'' \<notin> set skip_dirs \<and> should_ignore [''src'', ''coverage''] ignore_patterns \<and>
   ''venv'' \<notin> set skip_dirs \<and> should_ignore [''src'', ''venv''] ignore_patterns \<and>
   ''__pycache__'' \<notin> set skip_dirs \<and> should_ignore [''src'', ''__pycache__''] ignore_patterns"
proof (intro conjI impI)
  show "iteration (map (\<lambda>(name, item). (name, drop_skipped item)) cwd) lm = iteration cwd lm"
    by (rule iteration_drop_skipped)
next
  assume a: "w \<in> set watch_dirs \<and> map_of cwd w = Some fs \<and>
    descend fs (ds @ [f]) = Some (File (Some m)) \<and> set ds \<inter> set skip_dirs = {} \<and>
    lm (foldl os_path_join w (ds @ [f])) \<noteq> Some m"
  then have "(foldl os_path_join w (ds @ [f]), m) \<in> set (seen_under w fs)"
    by (intro descend_seen) simp_all
  with a have "(foldl os_path_join w (ds @ [f]), m) \<in> set (seen cwd)"
    by (intro seen_under_in_seen[of w cwd fs]) simp_all
  with a have "\<exists>(p, m)\<in>set (seen cwd). lm p \<noteq> Some m" by blast
  then show "snd (iteration cwd lm) = 1"
    by (simp add: iteration_calls poll_changed)
qed (simp_all add: skip_dirs_def ignore_patterns_def)

theorem watcher_prunes_exact_names_only_witness:
  "iteration [(''src'', Dir [(''build'', Dir []), (''main.ts'', File (Some 4))])] Map.empty =
     iteration [(''src'', Dir [(''build'', Dir [(''out.js'', File (Some 9))]),
                              (''main.ts'', File (Some 4))])] Map.empty \<and>
   snd (iteration [(''src'', Dir [(''mybuild'', Dir [(''out.js'', File (Some 9))])])]
          [''src/mybuild/out.js'' \<mapsto> 8]) = 1 \<and>
   snd (iteration [(''src'', Dir [(''build'', Dir [(''out.js'', File (Some 9))])])]
          [''src/build/out.js'' \<mapsto> 8]) = 0"
  using watcher_prunes_exact_names_only[of
      "[(''src'', Dir [(''build'', Dir [(''out.js'', File (Some 9))]), (''main.ts'', File (Some 4))])]"
      Map.empty]
    watcher_prunes_exact_names_only[of
      "[(''src'', Dir [(''mybuild'', Dir [(''out.js'', File (Some 9))])])]"
      "[''src/mybuild/out.js'' \<mapsto> 8]" "''src''"
      "Dir [(''mybuild'', Dir [(''out.js'', File (Some 9))])]" "[''mybuild'']" "''out.js''" 9]
  by (simp add: watch_eval)

end
